theory Spec2Isabelle
  imports Complex_Main "HOL-Library.Multiset"
begin

section \<open>Data model (commons.ts)\<close>

text \<open>
  The quote aggregator of \<^verbatim>\<open>q1/\<close>: \<^verbatim>\<open>commons.ts\<close> (interfaces, circuit breaker, retry
  manager), \<^verbatim>\<open>quote-jup.ts\<close> (primary source, orchestrator, scorer) and
  \<^verbatim>\<open>quote-fallback.ts\<close> (backup sources).

  JavaScript numbers are modelled as reals where they carry amounts, scores and delays, as
  \<open>int\<close> where they carry millisecond timestamps and as \<open>nat\<close> where they count. Rounding,
  \<^verbatim>\<open>NaN\<close> and the infinities of IEEE doubles are outside this model.
\<close>

datatype source = jupiter | dflow | hashflow | pyth_oracle

datatype confidence = high | medium | low

type_synonym hop = string

text \<open>\<^verbatim>\<open>interface QuoteRequest\<close>\<close>

record QuoteRequest =
  inputMint :: string
  outputMint :: string
  amount :: string
  slippageBps :: real
  userPublicKey :: "string option"

text \<open>\<^verbatim>\<open>interface QuoteResponse\<close>; the optional \<^verbatim>\<open>warnings?\<close> is \<open>None\<close> when undefined.\<close>

record QuoteResponse =
  inputAmount :: string
  outputAmount :: string
  priceImpactPct :: real
  routePlan :: "hop list"
  otherAmountThreshold :: string
  swapMode :: string
  quoteSlippageBps :: real
  source :: source
  confidence :: confidence
  warnings :: "string list option"

text \<open>
  A value that a rejected promise carries. The operations of this repository reject with
  \<^verbatim>\<open>Error\<close> objects (\<^verbatim>\<open>new Error(msg)\<close>, the \<^verbatim>\<open>TypeError\<close> and \<^verbatim>\<open>AbortError\<close> of
  \<^verbatim>\<open>fetch\<close>); \<^verbatim>\<open>catch (error)\<close> is untyped, so a thrown string is the second case, and
  \<^verbatim>\<open>undefined\<close> is what \<^verbatim>\<open>throw lastError!\<close> throws when \<^verbatim>\<open>lastError\<close> was never assigned.
\<close>

datatype thrown = ErrorObj string | StringVal string | Undefined

text \<open>
  The world outside the code under study: the clock read by \<^verbatim>\<open>Date.now()\<close>, the log of the
  operations invoked so far, the delays handed to \<^verbatim>\<open>setTimeout\<close> and awaited, and the stream
  of values \<^verbatim>\<open>Math.random()\<close> returns. An awaited operation takes a world and returns its
  outcome (\<open>Inl\<close> a rejection, \<open>Inr\<close> a value) with the world it leaves.
\<close>

record 'c world =
  clock :: int
  calls :: "'c list"
  timers :: "real list"
  randoms :: "nat \<Rightarrow> real"
  drawn :: nat

type_synonym ('c, 'a) operation = "'c world \<Rightarrow> (thrown + 'a) \<times> 'c world"

text \<open>\<^verbatim>\<open>Math.random()\<close>\<close>

definition mathRandom :: "'c world \<Rightarrow> real \<times> 'c world" where
  "mathRandom w = (randoms w (drawn w), w\<lparr>drawn := drawn w + 1\<rparr>)"

text \<open>
  \<^verbatim>\<open>await new Promise(resolve => setTimeout(resolve, delay))\<close>: the timer is logged and the
  clock moves on by the whole milliseconds of the delay.
\<close>

definition sleep :: "real \<Rightarrow> 'c world \<Rightarrow> 'c world" where
  "sleep delay w = w\<lparr>clock := clock w + max 0 \<lfloor>delay\<rfloor>, timers := timers w @ [delay]\<rparr>"

section \<open>Scorer (quote-jup.ts, calculateQuoteScore and selectBestQuote)\<close>

text \<open>
  \<^verbatim>\<open>parseFloat\<close> is a builtin of the language; the scorer takes it as the parameter
  \<open>parseFloat\<close>. \<open>parseDecimal\<close> is the instance used on concrete inputs: the value of an
  unsigned string of decimal digits, the form a token amount has.
\<close>

definition digitValue :: "char \<Rightarrow> nat option" where
  "digitValue c =
     (let code = (of_char c :: nat)
      in if 48 \<le> code \<and> code \<le> 57 then Some (code - 48) else None)"

fun readDigits :: "nat \<Rightarrow> string \<Rightarrow> nat" where
  "readDigits acc [] = acc"
| "readDigits acc (c # cs) =
     (case digitValue c of None \<Rightarrow> acc | Some d \<Rightarrow> readDigits (acc * 10 + d) cs)"

definition parseDecimal :: "string \<Rightarrow> real" where
  "parseDecimal s = real (readDigits 0 s)"

text \<open>
  \<^verbatim>\<open>calculateQuoteScore\<close>: the running \<^verbatim>\<open>score\<close> variable is threaded through the four
  steps of the source in their order.
\<close>

definition calculateQuoteScore :: "(string \<Rightarrow> real) \<Rightarrow> QuoteResponse \<Rightarrow> real" where
  "calculateQuoteScore parseFloat quote =
     (let score0 = 0;
          score1 = (case confidence quote of
                      high \<Rightarrow> score0 + 1000
                    | medium \<Rightarrow> score0 + 500
                    | low \<Rightarrow> score0 + 100);
          outAmount = parseFloat (outputAmount quote);
          score2 = score1 + ln (outAmount + 1) * 10;
          score3 = (case source quote of
                      jupiter \<Rightarrow> score2 + 100
                    | hashflow \<Rightarrow> score2 + 80
                    | dflow \<Rightarrow> score2 + 60
                    | pyth_oracle \<Rightarrow> score2 + 20);
          score4 = (case warnings quote of
                      None \<Rightarrow> score3
                    | Some ws \<Rightarrow>
                        if length ws > 0 then score3 - real (length ws) * 50 else score3)
      in score4)"

text \<open>The number of warnings a quote carries; an undefined \<^verbatim>\<open>warnings\<close> carries none.\<close>

definition warningCount :: "QuoteResponse \<Rightarrow> nat" where
  "warningCount quote = (case warnings quote of None \<Rightarrow> 0 | Some ws \<Rightarrow> length ws)"

text \<open>
  \<^verbatim>\<open>selectBestQuote\<close>. \<^verbatim>\<open>scored.sort((a, b) => b.score - a.score)\<close> orders by descending
  score, and \<^verbatim>\<open>Array.prototype.sort\<close> is stable: \<open>sort_key\<close> on the negated score is the
  stable sort into that order.
\<close>

definition selectBestQuote ::
  "(string \<Rightarrow> real) \<Rightarrow> QuoteResponse list \<Rightarrow> thrown + QuoteResponse" where
  "selectBestQuote parseFloat quotes =
     (if length quotes = 0 then Inl (ErrorObj ''No quotes available'')
      else
        let scored = map (\<lambda>quote. (quote, calculateQuoteScore parseFloat quote)) quotes;
            sorted = sort_key (\<lambda>a. - snd a) scored
        in Inr (fst (hd sorted)))"

section \<open>Circuit breaker (commons.ts)\<close>

record CircuitBreakerState =
  isOpen :: bool
  failureCount :: nat
  lastFailureTime :: int
  nextAttemptTime :: int

text \<open>The class: its private state and the three constructor parameters.\<close>

record CircuitBreaker =
  state :: CircuitBreakerState
  failureThreshold :: nat
  timeoutMs :: int
  halfOpenRetryDelayMs :: int

definition newCircuitBreaker :: "nat \<Rightarrow> int \<Rightarrow> int \<Rightarrow> CircuitBreaker" where
  "newCircuitBreaker threshold timeout retryDelay =
     \<lparr>state = \<lparr>isOpen = False, failureCount = 0, lastFailureTime = 0, nextAttemptTime = 0\<rparr>,
      failureThreshold = threshold, timeoutMs = timeout, halfOpenRetryDelayMs = retryDelay\<rparr>"

definition onSuccess :: "CircuitBreaker \<Rightarrow> CircuitBreaker" where
  "onSuccess cb = cb\<lparr>state := (state cb)\<lparr>failureCount := 0, isOpen := False\<rparr>\<rparr>"

text \<open>\<^verbatim>\<open>onFailure\<close> reads \<^verbatim>\<open>Date.now()\<close> twice, with nothing awaited in between.\<close>

definition onFailure :: "CircuitBreaker \<Rightarrow> 'c world \<Rightarrow> CircuitBreaker" where
  "onFailure cb w =
     (let s1 = (state cb)\<lparr>failureCount := failureCount (state cb) + 1\<rparr>;
          s2 = s1\<lparr>lastFailureTime := clock w\<rparr>;
          s3 = (if failureCount s2 \<ge> failureThreshold cb
                then s2\<lparr>isOpen := True, nextAttemptTime := clock w + halfOpenRetryDelayMs cb\<rparr>
                else s2)
      in cb\<lparr>state := s3\<rparr>)"

text \<open>The \<^verbatim>\<open>try { ... } catch\<close> block of \<^verbatim>\<open>execute\<close>.\<close>

definition tryOperation ::
  "CircuitBreaker \<Rightarrow> ('c, 'a) operation \<Rightarrow> 'c world \<Rightarrow> (thrown + 'a) \<times> CircuitBreaker \<times> 'c world" where
  "tryOperation cb operation w =
     (case operation w of
        (Inr result, w') \<Rightarrow> (Inr result, onSuccess cb, w')
      | (Inl error, w') \<Rightarrow> (Inl error, onFailure cb w', w'))"

definition execute ::
  "CircuitBreaker \<Rightarrow> ('c, 'a) operation \<Rightarrow> 'c world \<Rightarrow> (thrown + 'a) \<times> CircuitBreaker \<times> 'c world" where
  "execute cb operation w =
     (if isOpen (state cb) then
        if clock w < nextAttemptTime (state cb)
        then (Inl (ErrorObj ''Circuit breaker is OPEN''), cb, w)
        else tryOperation (cb\<lparr>state := (state cb)\<lparr>isOpen := False\<rparr>\<rparr>) operation w
      else tryOperation cb operation w)"

text \<open>The method \<^verbatim>\<open>isOpen()\<close>.\<close>

definition CircuitBreaker_isOpen :: "CircuitBreaker \<Rightarrow> bool" where
  "CircuitBreaker_isOpen cb = isOpen (state cb)"

text \<open>
  A caller's successive \<^verbatim>\<open>execute\<close> calls on one breaker: before each call the clock has
  moved on by some milliseconds. The outcomes are returned in call order.
\<close>

fun executeAll ::
  "CircuitBreaker \<Rightarrow> (nat \<times> ('c, 'a) operation) list \<Rightarrow> 'c world
     \<Rightarrow> (thrown + 'a) list \<times> CircuitBreaker \<times> 'c world" where
  "executeAll cb [] w = ([], cb, w)"
| "executeAll cb ((wait, operation) # rest) w =
     (case execute cb operation (w\<lparr>clock := clock w + int wait\<rparr>) of
        (r, cb', w') \<Rightarrow>
          (case executeAll cb' rest w' of (rs, cb'', w'') \<Rightarrow> (r # rs, cb'', w'')))"

section \<open>Retry manager (commons.ts)\<close>

text \<open>\<^verbatim>\<open>String.prototype.includes\<close>\<close>

fun startsWith :: "string \<Rightarrow> string \<Rightarrow> bool" where
  "startsWith s [] = True"
| "startsWith [] (c # cs) = False"
| "startsWith (d # ds) (c # cs) = (d = c \<and> startsWith ds cs)"

fun str_includes :: "string \<Rightarrow> string \<Rightarrow> bool" where
  "str_includes [] search = (search = [])"
| "str_includes (d # ds) search = (startsWith (d # ds) search \<or> str_includes ds search)"

text \<open>
  \<^verbatim>\<open>isNonRetryableError(error: any)\<close> calls \<^verbatim>\<open>error.includes(...)\<close>. A string has the
  method; an \<^verbatim>\<open>Error\<close> object has none, and neither has \<^verbatim>\<open>undefined\<close>, so the call
  itself throws a \<^verbatim>\<open>TypeError\<close>.
\<close>

definition isNonRetryableError :: "thrown \<Rightarrow> thrown + bool" where
  "isNonRetryableError error =
     (case error of
        StringVal s \<Rightarrow>
          Inr (str_includes s ''invalid token'' \<or> str_includes s ''token not found''
               \<or> str_includes s ''invalid amount'' \<or> str_includes s ''unauthorized'')
      | ErrorObj m \<Rightarrow> Inl (ErrorObj ''error.includes is not a function'')
      | Undefined \<Rightarrow>
          Inl (ErrorObj ''Cannot read properties of undefined (reading 'includes')''))"

text \<open>
  The \<^verbatim>\<open>for (let attempt = 0; attempt <= maxRetries; attempt++)\<close> loop of
  \<^verbatim>\<open>executeWithRetry\<close>, entered at \<open>attempt\<close> with \<open>lastError\<close> as assigned so far
  (\<open>Undefined\<close> before the first assignment). The cap is an integer here. A rejection of
  the operation is caught; an exception of \<^verbatim>\<open>isNonRetryableError\<close> is thrown inside the
  \<^verbatim>\<open>catch\<close> block and leaves the function.
\<close>

function retryLoop ::
  "('c, 'a) operation \<Rightarrow> int \<Rightarrow> real \<Rightarrow> real \<Rightarrow> nat \<Rightarrow> thrown \<Rightarrow> 'c world
     \<Rightarrow> (thrown + 'a) \<times> 'c world" where
  "retryLoop operation maxRetries baseDelayMs maxDelayMs attempt lastError w =
     (if int attempt \<le> maxRetries then
        (case operation w of
           (Inr result, w1) \<Rightarrow> (Inr result, w1)
         | (Inl error, w1) \<Rightarrow>
             if int attempt = maxRetries then (Inl error, w1)
             else
               (case isNonRetryableError error of
                  Inl typeError \<Rightarrow> (Inl typeError, w1)
                | Inr True \<Rightarrow> (Inl error, w1)
                | Inr False \<Rightarrow>
                    (case mathRandom w1 of
                       (r, w2) \<Rightarrow>
                         let delay = min (baseDelayMs * 2 ^ attempt + r * 100) maxDelayMs
                         in retryLoop operation maxRetries baseDelayMs maxDelayMs
                              (attempt + 1) error (sleep delay w2))))
      else (Inl lastError, w))"
  by pat_completeness auto
termination
  by (relation "measure (\<lambda>(operation, maxRetries, baseDelayMs, maxDelayMs, attempt, lastError, w).
        nat (maxRetries + 1 - int attempt))") auto

definition executeWithRetry ::
  "('c, 'a) operation \<Rightarrow> int \<Rightarrow> real \<Rightarrow> real \<Rightarrow> 'c world \<Rightarrow> (thrown + 'a) \<times> 'c world" where
  "executeWithRetry operation maxRetries baseDelayMs maxDelayMs w =
     retryLoop operation maxRetries baseDelayMs maxDelayMs 0 Undefined w"

text \<open>
  An operation given by its script: the \<open>n\<close>-th invocation (counted from the log) settles
  with the scripted outcome after the scripted latency, and logs itself.
\<close>

definition scripted :: "(nat \<Rightarrow> (thrown + 'a) \<times> nat) \<Rightarrow> (unit, 'a) operation" where
  "scripted script w =
     (case script (length (calls w)) of
        (r, latency) \<Rightarrow> (r, w\<lparr>clock := clock w + int latency, calls := calls w @ [()]\<rparr>))"

section \<open>Primary source (quote-jup.ts, JupiterQuoteService)\<close>

text \<open>
  The fields \<^verbatim>\<open>getQuote\<close> reads from the parsed response body \<^verbatim>\<open>data\<close>, under the names it
  reads them by. A field read through \<^verbatim>\<open>||\<close> or \<^verbatim>\<open>&&\<close> may be absent.
\<close>

record JupiterData =
  inAmount :: string
  outAmount :: string
  priceImpactPact :: "string option"
  data_routePlan :: "hop list option"
  data_otherAmountThreshold :: string
  data_swapMode :: "string option"
  data_slippageBps :: real








definition JupiterQuoteService_isHealthy :: "CircuitBreaker \<Rightarrow> bool" where
  "JupiterQuoteService_isHealthy circuitBreaker = (\<not> CircuitBreaker_isOpen circuitBreaker)"

section \<open>Orchestrator (quote-jup.ts, QuoteAggregatorService)\<close>

text \<open>
  The aggregator reaches its four services through the \<^verbatim>\<open>QuoteService\<close> interface only. A
  service is given here by what a call to it does: the outcome it settles with and the
  milliseconds it takes, both of which may depend on the request, the timeout and the world
  at the call. \<open>services i\<close> is \<^verbatim>\<open>this.services[i]\<close>: 0 Jupiter, 1 DFlow, 2 Hashflow,
  3 the Pyth oracle.
\<close>

record call =
  callee :: nat
  budget :: real
  outcome :: "thrown + QuoteResponse"

type_synonym service =
  "QuoteRequest \<Rightarrow> real \<Rightarrow> call world \<Rightarrow> (thrown + QuoteResponse) \<times> nat"

text \<open>\<^verbatim>\<open>await this.services[i].getQuote(request, timeoutMs)\<close>; every call is logged.\<close>

definition getQuote ::
  "(nat \<Rightarrow> service) \<Rightarrow> nat \<Rightarrow> QuoteRequest \<Rightarrow> real \<Rightarrow> (call, QuoteResponse) operation" where
  "getQuote services i request timeout w =
     (case services i request timeout w of
        (r, latency) \<Rightarrow>
          (r, w\<lparr>clock := clock w + int latency,
                 calls := calls w @ [\<lparr>callee = i, budget = timeout, outcome = r\<rparr>]\<rparr>))"

definition QUOTE_TIMEOUT_MS :: int where
  "QUOTE_TIMEOUT_MS = 2000"

text \<open>
  The three stages of \<^verbatim>\<open>executeParallelWithFallback\<close> act on the two local arrays
  \<^verbatim>\<open>results\<close> and \<^verbatim>\<open>errors\<close> and on the world. First the primary attempt (lines 111 to
  125).
\<close>

definition primaryAttempt ::
  "(nat \<Rightarrow> service) \<Rightarrow> QuoteRequest \<Rightarrow> int \<Rightarrow> call world
     \<Rightarrow> QuoteResponse list \<times> thrown list \<times> call world" where
  "primaryAttempt services request startTime w =
     (let remainingTime = QUOTE_TIMEOUT_MS - (clock w - startTime) in
      if remainingTime > 200 then
        (case executeWithRetry
                (getQuote services 0 request (min (real_of_int remainingTime - 100) 1000))
                2 50 200 w of
           (Inr jupiterQuote, w') \<Rightarrow> ([jupiterQuote], [], w')
         | (Inl error, w') \<Rightarrow> ([], [error], w'))
      else ([], [], w))"

text \<open>
  The backup fan-out (lines 132 to 153). Both calls start in the same world; the stage
  resumes when the slower one has settled. \<^verbatim>\<open>results\<close> receives the quotes in the order of
  the services, \<^verbatim>\<open>errors\<close> the rejections in the order in which the calls settle (the first
  service first when both settle in the same millisecond).
\<close>

definition backupAttempts ::
  "(nat \<Rightarrow> service) \<Rightarrow> QuoteRequest \<Rightarrow> int \<Rightarrow> QuoteResponse list \<Rightarrow> thrown list
     \<Rightarrow> call world \<Rightarrow> QuoteResponse list \<times> thrown list \<times> call world" where
  "backupAttempts services request startTime results errors w =
     (let remainingTime = QUOTE_TIMEOUT_MS - (clock w - startTime) in
      if remainingTime > 300 then
        (let serviceTimeout = min (real_of_int remainingTime / 2) 800 in
         case services 1 request serviceTimeout w of
           (r1, latency1) \<Rightarrow>
             (case services 2 request serviceTimeout w of
                (r2, latency2) \<Rightarrow>
                  let rejected1 = (case r1 of Inl error \<Rightarrow> [error] | Inr value \<Rightarrow> []);
                      rejected2 = (case r2 of Inl error \<Rightarrow> [error] | Inr value \<Rightarrow> []);
                      fulfilled1 = (case r1 of Inl error \<Rightarrow> [] | Inr value \<Rightarrow> [value]);
                      fulfilled2 = (case r2 of Inl error \<Rightarrow> [] | Inr value \<Rightarrow> [value])
                  in (results @ fulfilled1 @ fulfilled2,
                      errors @ (if latency1 \<le> latency2 then rejected1 @ rejected2
                                else rejected2 @ rejected1),
                      w\<lparr>clock := clock w + int (max latency1 latency2),
                        calls := calls w
                          @ [\<lparr>callee = 1, budget = serviceTimeout, outcome = r1\<rparr>,
                             \<lparr>callee = 2, budget = serviceTimeout, outcome = r2\<rparr>]\<rparr>)))
      else (results, errors, w))"

text \<open>The oracle as last resort (lines 155 to 166).\<close>

definition oracleAttempt ::
  "(nat \<Rightarrow> service) \<Rightarrow> QuoteRequest \<Rightarrow> int \<Rightarrow> QuoteResponse list \<Rightarrow> thrown list
     \<Rightarrow> call world \<Rightarrow> QuoteResponse list \<times> thrown list \<times> call world" where
  "oracleAttempt services request startTime results errors w =
     (if length results = 0 \<or> list_all (\<lambda>r. confidence r = low) results then
        (let finalRemainingTime = QUOTE_TIMEOUT_MS - (clock w - startTime) in
         if finalRemainingTime > 200 then
           (case getQuote services 3 request (real_of_int finalRemainingTime - 50) w of
              (Inr oracleQuote, w') \<Rightarrow> (results @ [oracleQuote], errors, w')
            | (Inl error, w') \<Rightarrow> (results, errors @ [error], w'))
         else (results, errors, w))
      else (results, errors, w))"

text \<open>
  \<^verbatim>\<open>errors.map(e => e.message).join('; ')\<close>. Reading \<^verbatim>\<open>.message\<close> of \<^verbatim>\<open>undefined\<close> throws;
  a string has no such property, and \<^verbatim>\<open>join\<close> renders the undefined it yields as the empty
  string.
\<close>

fun messages :: "thrown list \<Rightarrow> thrown + string list" where
  "messages [] = Inr []"
| "messages (e # es) =
     (case e of
        Undefined \<Rightarrow> Inl (ErrorObj ''Cannot read properties of undefined (reading 'message')'')
      | ErrorObj m \<Rightarrow> (case messages es of Inl t \<Rightarrow> Inl t | Inr ms \<Rightarrow> Inr (m # ms))
      | StringVal s \<Rightarrow> (case messages es of Inl t \<Rightarrow> Inl t | Inr ms \<Rightarrow> Inr ([] # ms)))"

fun join :: "string \<Rightarrow> string list \<Rightarrow> string" where
  "join sep [] = []"
| "join sep [s] = s"
| "join sep (s # t # ss) = s @ sep @ join sep (t # ss)"

text \<open>The value thrown at lines 168 to 172.\<close>

definition allFailed :: "thrown list \<Rightarrow> thrown" where
  "allFailed errors =
     (case messages errors of
        Inl typeError \<Rightarrow> typeError
      | Inr ms \<Rightarrow> ErrorObj (''All quote services failed: '' @ join ''; '' ms))"

definition executeParallelWithFallback ::
  "(nat \<Rightarrow> service) \<Rightarrow> QuoteRequest \<Rightarrow> int \<Rightarrow> call world
     \<Rightarrow> (thrown + QuoteResponse list) \<times> call world" where
  "executeParallelWithFallback services request startTime w =
     (case primaryAttempt services request startTime w of
        (results1, errors1, w1) \<Rightarrow>
          if length results1 > 0 \<and> confidence (results1 ! 0) = high then (Inr results1, w1)
          else
            (case backupAttempts services request startTime results1 errors1 w1 of
               (results2, errors2, w2) \<Rightarrow>
                 (case oracleAttempt services request startTime results2 errors2 w2 of
                    (results3, errors3, w3) \<Rightarrow>
                      if length results3 = 0 then (Inl (allFailed errors3), w3)
                      else (Inr results3, w3))))"

definition getOptimalQuote ::
  "(string \<Rightarrow> real) \<Rightarrow> (nat \<Rightarrow> service) \<Rightarrow> QuoteRequest \<Rightarrow> call world
     \<Rightarrow> (thrown + QuoteResponse) \<times> call world" where
  "getOptimalQuote parseFloat services request w =
     (let startTime = clock w in
      case executeParallelWithFallback services request startTime w of
        (Inl error, w') \<Rightarrow> (Inl error, w')
      | (Inr results, w') \<Rightarrow> (selectBestQuote parseFloat results, w'))"

text \<open>The quotes that the calls of a log produced, in call order.\<close>

definition produced :: "call list \<Rightarrow> QuoteResponse list" where
  "produced cs = concat (map (\<lambda>c. case outcome c of Inl error \<Rightarrow> [] | Inr quote \<Rightarrow> [quote]) cs)"

section \<open>Concrete inputs\<close>

text \<open>The quotes, operations and worlds at which the properties below are instantiated.\<close>

definition quoteA :: QuoteResponse where
  "quoteA = \<lparr>inputAmount = ''1000'', outputAmount = ''100'', priceImpactPct = 0, routePlan = [],
     otherAmountThreshold = ''99'', swapMode = ''ExactIn'', quoteSlippageBps = 50,
     source = dflow, confidence = medium, warnings = None\<rparr>"

definition quoteB :: QuoteResponse where
  "quoteB = quoteA\<lparr>otherAmountThreshold := ''95''\<rparr>"

definition quoteOracle :: QuoteResponse where
  "quoteOracle = \<lparr>inputAmount = ''1000'', outputAmount = ''100'', priceImpactPct = 0,
     routePlan = [], otherAmountThreshold = ''95'', swapMode = ''ExactIn'', quoteSlippageBps = 50,
     source = pyth_oracle, confidence = low,
     warnings = Some [''APPROXIMATE QUOTE ONLY - Based on oracle prices'',
                      ''Actual swap may have different rates and availability'',
                      ''Please verify liquidity before executing'']\<rparr>"

definition quoteJ1 :: QuoteResponse where
  "quoteJ1 = \<lparr>inputAmount = ''1000'', outputAmount = ''250'', priceImpactPct = 7, routePlan = [],
     otherAmountThreshold = ''240'', swapMode = ''ExactIn'', quoteSlippageBps = 50,
     source = jupiter, confidence = low,
     warnings = Some [''High price impact detected - may indicate illiquid routing'']\<rparr>"

definition quoteJ2 :: QuoteResponse where
  "quoteJ2 = \<lparr>inputAmount = ''31'', outputAmount = ''250'', priceImpactPct = 0,
     routePlan = [''a'', ''b'', ''c'', ''d'', ''e''], otherAmountThreshold = ''249'',
     swapMode = ''ExactOut'', quoteSlippageBps = 10, source = jupiter, confidence = low,
     warnings = Some [''Complex routing detected - multiple hops may increase slippage'']\<rparr>"

definition world0 :: "'c world" where
  "world0 = \<lparr>clock = 0, calls = [], timers = [], randoms = (\<lambda>n. 1 / 2), drawn = 0\<rparr>"

definition failsIn10 :: "('c, QuoteResponse) operation" where
  "failsIn10 w =
     (Inl (ErrorObj ''Jupiter API error: 503 Service Unavailable''), w\<lparr>clock := clock w + 10\<rparr>)"

definition succeedsIn10 :: "('c, QuoteResponse) operation" where
  "succeedsIn10 w = (Inr quoteA, w\<lparr>clock := clock w + 10\<rparr>)"

definition openBreaker :: CircuitBreaker where
  "openBreaker =
     \<lparr>state = \<lparr>isOpen = True, failureCount = 3, lastFailureTime = 100, nextAttemptTime = 5100\<rparr>,
      failureThreshold = 3, timeoutMs = 2000, halfOpenRetryDelayMs = 5000\<rparr>"

definition failsOnceThenSucceeds :: "nat \<Rightarrow> (thrown + QuoteResponse) \<times> nat" where
  "failsOnceThenSucceeds n =
     (if n = 0 then (Inl (ErrorObj ''Jupiter API error: 503 Service Unavailable''), 20)
      else (Inr quoteA, 20))"

definition unauthorizedThenSucceeds :: "nat \<Rightarrow> (thrown + QuoteResponse) \<times> nat" where
  "unauthorizedThenSucceeds n =
     (if n = 0 then (Inl (ErrorObj ''401 unauthorized''), 20) else (Inr quoteA, 20))"

definition timeoutsThenSucceeds :: "nat \<Rightarrow> (thrown + QuoteResponse) \<times> nat" where
  "timeoutsThenSucceeds n =
     (if n < 2 then (Inl (StringVal ''request timed out''), 20) else (Inr quoteA, 20))"

definition request0 :: QuoteRequest where
  "request0 = \<lparr>inputMint = ''SOL'', outputMint = ''newToken'', amount = ''1000000000'',
     slippageBps = 50, userPublicKey = None\<rparr>"

definition quoteHigh :: QuoteResponse where
  "quoteHigh = \<lparr>inputAmount = ''1000000000'', outputAmount = ''730'', priceImpactPct = 0,
     routePlan = [''a''], otherAmountThreshold = ''726'', swapMode = ''ExactIn'',
     quoteSlippageBps = 50, source = jupiter, confidence = high, warnings = None\<rparr>"

definition servicesPrimaryHigh :: "nat \<Rightarrow> service" where
  "servicesPrimaryHigh i request timeout w =
     (if i = 0 then (Inr quoteHigh, 120) else (Inr quoteA, 50))"

definition servicesAllDown :: "nat \<Rightarrow> service" where
  "servicesAllDown i request timeout w =
     (if i = 0 then (Inl (ErrorObj ''Jupiter API error: 503 Service Unavailable''), 30)
      else if i = 1 then (Inl (ErrorObj ''DFlow unreachable''), 80)
      else if i = 2 then (Inl (ErrorObj ''Hashflow unreachable''), 40)
      else (Inl (ErrorObj ''Pyth feed missing''), 10))"




section \<open>Properties of the scorer\<close>

lemma parseDecimal_100: "parseDecimal ''100'' = 100"
  by (simp add: parseDecimal_def digitValue_def)

lemma calculateQuoteScore_sum:
  "calculateQuoteScore parseFloat quote =
     (case confidence quote of high \<Rightarrow> 1000 | medium \<Rightarrow> 500 | low \<Rightarrow> 100)
     + ln (parseFloat (outputAmount quote) + 1) * 10
     + (case source quote of jupiter \<Rightarrow> 100 | hashflow \<Rightarrow> 80 | dflow \<Rightarrow> 60 | pyth_oracle \<Rightarrow> 20)
     - 50 * real (warningCount quote)"
  by (simp add: calculateQuoteScore_def warningCount_def Let_def
      split: confidence.split source.split option.split)

text \<open>
  Claim C7. The score of a quote is the sum of the confidence base score (high 1000, medium
  500, low 100), the liquidity term \<open>ln (outputAmount + 1) * 10\<close>, the source bonus (jupiter
  100, hashflow 80, dflow 60, pyth-oracle 20) and the penalty of 50 per warning. The output
  amount is one on which \<^verbatim>\<open>Math.log(outputAmount + 1)\<close> is a number.
\<close>

theorem score_is_sum_of_four_terms:
  assumes "- 1 < parseFloat (outputAmount quote)"
  shows "calculateQuoteScore parseFloat quote =
     (case confidence quote of high \<Rightarrow> 1000 | medium \<Rightarrow> 500 | low \<Rightarrow> 100)
     + ln (parseFloat (outputAmount quote) + 1) * 10
     + (case source quote of jupiter \<Rightarrow> 100 | hashflow \<Rightarrow> 80 | dflow \<Rightarrow> 60 | pyth_oracle \<Rightarrow> 20)
     - 50 * real (warningCount quote)"
  by (rule calculateQuoteScore_sum)

theorem score_is_sum_of_four_terms_witness:
  "- 1 < parseDecimal (outputAmount quoteOracle)
   \<and> calculateQuoteScore parseDecimal quoteOracle = 100 + ln 101 * 10 + 20 - 50 * 3"
proof -
  have pos: "- 1 < parseDecimal (outputAmount quoteOracle)"
    by (simp add: quoteOracle_def parseDecimal_100)
  show ?thesis
    using pos score_is_sum_of_four_terms[of parseDecimal quoteOracle, OF pos]
    by (simp add: quoteOracle_def parseDecimal_100 warningCount_def)
qed

text \<open>
  Claim C9. Two quotes that agree on source, confidence, output amount and number of
  warnings get the same score: no other field of a quote enters the score.
\<close>

theorem score_ignores_other_fields:
  assumes "source a = source b" and "confidence a = confidence b"
    and "outputAmount a = outputAmount b" and "warningCount a = warningCount b"
  shows "calculateQuoteScore parseFloat a = calculateQuoteScore parseFloat b"
  using assms by (simp add: calculateQuoteScore_sum)

theorem score_ignores_other_fields_witness:
  "calculateQuoteScore parseDecimal quoteJ1 = calculateQuoteScore parseDecimal quoteJ2
   \<and> inputAmount quoteJ1 \<noteq> inputAmount quoteJ2
   \<and> priceImpactPct quoteJ1 \<noteq> priceImpactPct quoteJ2
   \<and> routePlan quoteJ1 \<noteq> routePlan quoteJ2
   \<and> otherAmountThreshold quoteJ1 \<noteq> otherAmountThreshold quoteJ2
   \<and> swapMode quoteJ1 \<noteq> swapMode quoteJ2
   \<and> quoteSlippageBps quoteJ1 \<noteq> quoteSlippageBps quoteJ2
   \<and> warnings quoteJ1 \<noteq> warnings quoteJ2"
proof -
  have "source quoteJ1 = source quoteJ2" "confidence quoteJ1 = confidence quoteJ2"
    "outputAmount quoteJ1 = outputAmount quoteJ2" "warningCount quoteJ1 = warningCount quoteJ2"
    by (simp_all add: quoteJ1_def quoteJ2_def warningCount_def)
  then have "calculateQuoteScore parseDecimal quoteJ1 = calculateQuoteScore parseDecimal quoteJ2"
    by (rule score_ignores_other_fields)
  then show ?thesis by (simp add: quoteJ1_def quoteJ2_def)
qed

lemma sort_key_Nil_iff: "sort_key f xs = [] \<longleftrightarrow> xs = []"
  by (cases xs) (auto simp: insort_not_Nil)

lemma hd_sort_key:
  assumes "xs \<noteq> []"
  shows "hd (sort_key f xs) = hd (filter (\<lambda>x. \<forall>y\<in>set xs. f x \<le> f y) xs)"
proof -
  let ?ys = "sort_key f xs"
  let ?k = "f (hd ?ys)"
  from assms obtain z zs where ys: "?ys = z # zs"
    by (cases ?ys) (auto simp: sort_key_Nil_iff)
  have "sorted (map f ?ys)" by simp
  then have least: "\<forall>y\<in>set xs. ?k \<le> f y"
    unfolding ys using set_sort[of f xs] ys by auto
  have hd_in: "hd ?ys \<in> set xs"
    using set_sort[of f xs] ys by auto
  have "filter (\<lambda>y. f y = ?k) ?ys = filter (\<lambda>y. f y = ?k) xs"
    by (rule sort_key_stable)
  moreover have "hd (filter (\<lambda>y. f y = ?k) ?ys) = hd ?ys"
    unfolding ys by simp
  moreover have "filter (\<lambda>y. f y = ?k) xs = filter (\<lambda>x. \<forall>y\<in>set xs. f x \<le> f y) xs"
  proof (rule filter_cong[OF refl])
    fix x assume x: "x \<in> set xs"
    show "(f x = ?k) = (\<forall>y\<in>set xs. f x \<le> f y)"
    proof
      assume "f x = ?k" then show "\<forall>y\<in>set xs. f x \<le> f y" using least by simp
    next
      assume "\<forall>y\<in>set xs. f x \<le> f y"
      then have "f x \<le> ?k" using hd_in by blast
      moreover have "?k \<le> f x" using least x by blast
      ultimately show "f x = ?k" by simp
    qed
  qed
  ultimately show ?thesis by simp
qed

lemma score_quoteA: "calculateQuoteScore parseDecimal quoteA = 560 + ln 101 * 10"
  by (simp add: calculateQuoteScore_def quoteA_def parseDecimal_100)

lemma score_quoteOracle: "calculateQuoteScore parseDecimal quoteOracle = ln 101 * 10 - 30"
  by (simp add: calculateQuoteScore_def quoteOracle_def parseDecimal_100)

lemma exists_highest:
  "xs \<noteq> [] \<Longrightarrow> \<exists>x\<in>set xs. \<forall>y\<in>set xs. (g y :: real) \<le> g x"
proof (induction xs)
  case Nil then show ?case by simp
next
  case (Cons a xs)
  show ?case
  proof (cases "xs = []")
    case True then show ?thesis by simp
  next
    case False
    then obtain x where x: "x \<in> set xs" "\<forall>y\<in>set xs. g y \<le> g x" using Cons.IH by blast
    show ?thesis
    proof (cases "g x \<le> g a")
      case True
      then have "\<forall>y\<in>set (a # xs). g y \<le> g a" using x(2) by force
      then show ?thesis by auto
    next
      case False
      then have "\<forall>y\<in>set (a # xs). g y \<le> g x" using x(2) by force
      then show ?thesis using x(1) by auto
    qed
  qed
qed

lemma selectBestQuote_hd_filter:
  assumes "quotes \<noteq> []"
  shows "selectBestQuote pf quotes =
     Inr (hd (filter (\<lambda>q. \<forall>c\<in>set quotes. calculateQuoteScore pf c \<le> calculateQuoteScore pf q) quotes))"
proof -
  let ?g = "\<lambda>quote. (quote, calculateQuoteScore pf quote)"
  let ?k = "\<lambda>a :: QuoteResponse \<times> real. - snd a"
  let ?P = "\<lambda>q. \<forall>c\<in>set quotes. calculateQuoteScore pf c \<le> calculateQuoteScore pf q"
  have ne: "map ?g quotes \<noteq> []" using assms by simp
  have "hd (sort_key ?k (map ?g quotes))
      = hd (filter (\<lambda>x. \<forall>y\<in>set (map ?g quotes). ?k x \<le> ?k y) (map ?g quotes))"
    by (rule hd_sort_key[OF ne])
  also have "filter (\<lambda>x. \<forall>y\<in>set (map ?g quotes). ?k x \<le> ?k y) (map ?g quotes)
      = map ?g (filter ?P quotes)"
    by (simp add: filter_map comp_def)
  finally have 1: "hd (sort_key ?k (map ?g quotes)) = hd (map ?g (filter ?P quotes))" .
  obtain x where "x \<in> set quotes" "?P x"
    using exists_highest[OF assms, of "calculateQuoteScore pf"] by blast
  then have "filter ?P quotes \<noteq> []" by (auto simp: filter_empty_conv)
  then have "hd (map ?g (filter ?P quotes)) = ?g (hd (filter ?P quotes))"
    by (simp add: hd_map)
  with 1 show ?thesis using assms by (simp add: selectBestQuote_def Let_def)
qed

lemma hd_filter_split:
  assumes "filter P xs \<noteq> []"
  shows "\<exists>pre post. xs = pre @ hd (filter P xs) # post \<and> (\<forall>x\<in>set pre. \<not> P x) \<and> P (hd (filter P xs))"
  using assms
proof (induction xs)
  case Nil then show ?case by simp
next
  case (Cons a xs)
  show ?case
  proof (cases "P a")
    case True
    then have "a # xs = [] @ hd (filter P (a # xs)) # xs" by simp
    then show ?thesis using True by (metis empty_iff list.sel(1) filter.simps(2) list.set(1))
  next
    case False
    then have ne: "filter P xs \<noteq> []" using Cons.prems by simp
    obtain pre post where "xs = pre @ hd (filter P xs) # post" "\<forall>x\<in>set pre. \<not> P x" "P (hd (filter P xs))"
      using Cons.IH[OF ne] by blast
    then have "a # xs = (a # pre) @ hd (filter P (a # xs)) # post \<and> (\<forall>x\<in>set (a # pre). \<not> P x) \<and> P (hd (filter P (a # xs)))"
      using False by simp
    then show ?thesis by blast
  qed
qed

text \<open>
  Claim C8, as amended. For a non-empty list of quotes (with output amounts on which
  \<^verbatim>\<open>Math.log\<close> is a number) \<^verbatim>\<open>selectBestQuote\<close> returns the quote with the highest total score
  that comes first in the list: every quote before it scores strictly less, every quote after
  it at most as much. So a permutation of the list selects the same quote whenever no other
  quote of the list ties with the selected one; a tie is decided by the position in the list
  and by nothing else.
\<close>

theorem selectBestQuote_first_highest:
  assumes "quotes \<noteq> []" and "mset quotes' = mset quotes"
    and "\<forall>q\<in>set quotes. - 1 < pf (outputAmount q)"
  shows "\<exists>best pre post.
           selectBestQuote pf quotes = Inr best
         \<and> quotes = pre @ best # post
         \<and> (\<forall>q\<in>set pre. calculateQuoteScore pf q < calculateQuoteScore pf best)
         \<and> (\<forall>q\<in>set post. calculateQuoteScore pf q \<le> calculateQuoteScore pf best)
         \<and> ((\<forall>q\<in>set quotes. calculateQuoteScore pf q = calculateQuoteScore pf best \<longrightarrow> q = best)
              \<longrightarrow> selectBestQuote pf quotes' = Inr best)"
proof -
  let ?s = "calculateQuoteScore pf"
  let ?P = "\<lambda>q. \<forall>c\<in>set quotes. ?s c \<le> ?s q"
  let ?best = "hd (filter ?P quotes)"
  have sel: "selectBestQuote pf quotes = Inr ?best"
    by (rule selectBestQuote_hd_filter[OF assms(1)])
  obtain x where "x \<in> set quotes" "?P x"
    using exists_highest[OF assms(1), of ?s] by blast
  then have ne: "filter ?P quotes \<noteq> []" by (auto simp: filter_empty_conv)
  obtain pre post where split: "quotes = pre @ ?best # post"
    and pre: "\<forall>x\<in>set pre. \<not> ?P x" and best: "?P ?best"
    using hd_filter_split[OF ne] by blast
  have pre_lt: "\<forall>q\<in>set pre. ?s q < ?s ?best"
  proof
    fix q assume "q \<in> set pre"
    then have "\<not> ?P q" using pre by blast
    then obtain c where "c \<in> set quotes" "?s q < ?s c" by (auto simp: not_le)
    then show "?s q < ?s ?best" using best by force
  qed
  have post_le: "\<forall>q\<in>set post. ?s q \<le> ?s ?best"
  proof
    fix q assume "q \<in> set post"
    then have "q \<in> set quotes" by (subst split) simp
    then show "?s q \<le> ?s ?best" using best by blast
  qed
  have perm: "selectBestQuote pf quotes' = Inr ?best"
    if uniq: "\<forall>q\<in>set quotes. ?s q = ?s ?best \<longrightarrow> q = ?best"
  proof -
    have sets: "set quotes' = set quotes" using assms(2) by (rule mset_eq_setD)
    have ne': "quotes' \<noteq> []" using assms(1) sets by auto
    let ?P' = "\<lambda>q. \<forall>c\<in>set quotes'. ?s c \<le> ?s q"
    let ?best' = "hd (filter ?P' quotes')"
    have sel': "selectBestQuote pf quotes' = Inr ?best'"
      by (rule selectBestQuote_hd_filter[OF ne'])
    obtain y where "y \<in> set quotes'" "?P' y"
      using exists_highest[OF ne', of ?s] by blast
    then have "filter ?P' quotes' \<noteq> []" by (auto simp: filter_empty_conv)
    then have "?best' \<in> set (filter ?P' quotes')" by (rule hd_in_set)
    then have in': "?best' \<in> set quotes" and max': "\<forall>c\<in>set quotes. ?s c \<le> ?s ?best'"
      using sets by auto
    have "?best \<in> set quotes" by (subst (2) split) simp
    then have "?s ?best \<le> ?s ?best'" using max' by blast
    moreover have "?s ?best' \<le> ?s ?best" using best in' by blast
    ultimately have "?s ?best' = ?s ?best" by simp
    then have "?best' = ?best" using uniq in' by blast
    then show ?thesis using sel' by simp
  qed
  show ?thesis
    using sel split pre_lt post_le perm by blast
qed


lemma selectBestQuote_A_Oracle: "selectBestQuote parseDecimal [quoteA, quoteOracle] = Inr quoteA"
  by (simp add: selectBestQuote_def score_quoteA score_quoteOracle)

theorem selectBestQuote_first_highest_witness:
  "selectBestQuote parseDecimal [quoteA, quoteOracle] = Inr quoteA
   \<and> selectBestQuote parseDecimal [quoteOracle, quoteA] = Inr quoteA"
proof -
  have a: "[quoteA, quoteOracle] \<noteq> []" by simp
  have b: "mset [quoteOracle, quoteA] = mset [quoteA, quoteOracle]" by simp
  have c: "\<forall>q\<in>set [quoteA, quoteOracle]. - 1 < parseDecimal (outputAmount q)"
    by (simp add: quoteA_def quoteOracle_def parseDecimal_100)
  obtain best where best: "selectBestQuote parseDecimal [quoteA, quoteOracle] = Inr best"
    and perm: "(\<forall>q\<in>set [quoteA, quoteOracle]. calculateQuoteScore parseDecimal q
                  = calculateQuoteScore parseDecimal best \<longrightarrow> q = best)
               \<longrightarrow> selectBestQuote parseDecimal [quoteOracle, quoteA] = Inr best"
    using selectBestQuote_first_highest[OF a b c] by blast
  have "best = quoteA" using best selectBestQuote_A_Oracle by simp
  then show ?thesis using best perm by (simp add: score_quoteA score_quoteOracle)
qed

text \<open>
  The claim as stated fails: two different quotes of equal score are each selected when they
  come first.
\<close>

theorem selectBestQuote_order_counterexample:
  "mset [quoteB, quoteA] = mset [quoteA, quoteB]
   \<and> selectBestQuote parseDecimal [quoteA, quoteB] = Inr quoteA
   \<and> selectBestQuote parseDecimal [quoteB, quoteA] = Inr quoteB
   \<and> quoteA \<noteq> quoteB
   \<and> calculateQuoteScore parseDecimal quoteA = calculateQuoteScore parseDecimal quoteB"
  by (simp add: selectBestQuote_def calculateQuoteScore_def quoteB_def quoteA_def)

section \<open>Properties of the circuit breaker\<close>

lemma execute_fast_fail:
  "isOpen (state cb) \<Longrightarrow> clock w < nextAttemptTime (state cb) \<Longrightarrow>
   execute cb operation w = (Inl (ErrorObj ''Circuit breaker is OPEN''), cb, w)"
  by (simp add: execute_def)

lemma execute_closed:
  "\<not> isOpen (state cb) \<Longrightarrow> execute cb operation w = tryOperation cb operation w"
  by (simp add: execute_def)

lemma tryOperation_failure:
  assumes "tryOperation cb operation w = (r, cb', w')" and "isl r"
  shows "cb' = onFailure cb w'"
  using assms by (auto simp: tryOperation_def split: prod.splits sum.splits)

lemma execute_trial_success:
  "isOpen (state cb) \<Longrightarrow> nextAttemptTime (state cb) \<le> clock w \<Longrightarrow> operation w = (Inr v, w') \<Longrightarrow>
   execute cb operation w = (Inr v, onSuccess (cb\<lparr>state := (state cb)\<lparr>isOpen := False\<rparr>\<rparr>), w')"
  by (simp add: execute_def tryOperation_def)

lemma execute_success_closes:
  assumes "execute cb operation w = (Inr v, cb', w')"
  shows "\<not> isOpen (state cb') \<and> failureCount (state cb') = 0"
  using assms
  by (auto simp: execute_def tryOperation_def onSuccess_def split: if_splits prod.splits sum.splits)

lemma newCircuitBreaker_closed:
  "\<not> isOpen (state (newCircuitBreaker threshold timeout retryDelay))
   \<and> failureCount (state (newCircuitBreaker threshold timeout retryDelay)) = 0"
  by (simp add: newCircuitBreaker_def)

lemma onFailure_fields:
  "failureCount (state (onFailure cb w)) = failureCount (state cb) + 1"
  "failureThreshold (onFailure cb w) = failureThreshold cb"
  "halfOpenRetryDelayMs (onFailure cb w) = halfOpenRetryDelayMs cb"
  "\<not> isOpen (state cb) \<Longrightarrow>
     isOpen (state (onFailure cb w)) = (failureThreshold cb \<le> failureCount (state cb) + 1)"
  "failureThreshold cb \<le> failureCount (state cb) + 1 \<Longrightarrow>
     nextAttemptTime (state (onFailure cb w)) = clock w + halfOpenRetryDelayMs cb"
  by (simp_all add: onFailure_def Let_def)

lemma executeAll_failures:
  assumes "executeAll cb ops w = (rs, cb', w')" and "\<forall>r\<in>set rs. isl r"
    and "\<not> isOpen (state cb)"
    and "failureCount (state cb) + length ops \<le> failureThreshold cb"
  shows "failureCount (state cb') = failureCount (state cb) + length ops
       \<and> failureThreshold cb' = failureThreshold cb
       \<and> halfOpenRetryDelayMs cb' = halfOpenRetryDelayMs cb
       \<and> (isOpen (state cb') \<longleftrightarrow> ops \<noteq> [] \<and> failureCount (state cb) + length ops = failureThreshold cb)
       \<and> (isOpen (state cb') \<longrightarrow> nextAttemptTime (state cb') = clock w' + halfOpenRetryDelayMs cb)"
  using assms
proof (induction ops arbitrary: cb w rs)
  case Nil
  then show ?case by simp
next
  case (Cons a ops)
  obtain wait operation where a: "a = (wait, operation)" by (cases a)
  let ?w0 = "w\<lparr>clock := clock w + int wait\<rparr>"
  obtain r1 cb1 wa where ex: "execute cb operation ?w0 = (r1, cb1, wa)"
    by (cases "execute cb operation ?w0")
  obtain rs2 where rest: "executeAll cb1 ops wa = (rs2, cb', w')" and rs: "rs = r1 # rs2"
    using Cons.prems(1) a ex by (auto split: prod.splits)
  have "isl r1" using Cons.prems(2) rs by simp
  moreover have "tryOperation cb operation ?w0 = (r1, cb1, wa)"
    using ex Cons.prems(3) by (simp add: execute_closed)
  ultimately have cb1: "cb1 = onFailure cb wa" by (rule tryOperation_failure[rotated])
  have fl: "\<forall>r\<in>set rs2. isl r" using Cons.prems(2) rs by simp
  show ?case
  proof (cases "ops = []")
    case True
    then have "cb' = onFailure cb wa" "w' = wa" using rest cb1 by auto
    then show ?thesis using True Cons.prems(3,4) by (auto simp: onFailure_fields)
  next
    case False
    then have lt: "failureCount (state cb) + 1 < failureThreshold cb"
      using Cons.prems(4) by (cases ops) auto
    have closed: "\<not> isOpen (state cb1)"
      using lt Cons.prems(3) cb1 by (simp add: onFailure_fields)
    have bound: "failureCount (state cb1) + length ops \<le> failureThreshold cb1"
      using Cons.prems(4) cb1 by (simp add: onFailure_fields)
    from Cons.IH[OF rest fl closed bound] show ?thesis
      using False cb1 by (simp add: onFailure_fields)
  qed
qed

lemma executeAll_blocked:
  assumes "isOpen (state cb)"
    and "clock w + int (sum_list (map fst ops)) < nextAttemptTime (state cb)"
  shows "executeAll cb ops w =
           (replicate (length ops) (Inl (ErrorObj ''Circuit breaker is OPEN'')), cb,
            w\<lparr>clock := clock w + int (sum_list (map fst ops))\<rparr>)"
  using assms
proof (induction ops arbitrary: w)
  case Nil
  then show ?case by simp
next
  case (Cons a ops)
  obtain wait operation where a: "a = (wait, operation)" by (cases a)
  let ?w0 = "w\<lparr>clock := clock w + int wait\<rparr>"
  have early: "clock ?w0 < nextAttemptTime (state cb)" using Cons.prems(2) a by simp
  have ex: "execute cb operation ?w0 = (Inl (ErrorObj ''Circuit breaker is OPEN''), cb, ?w0)"
    using Cons.prems(1) early by (rule execute_fast_fail)
  have "clock ?w0 + int (sum_list (map fst ops)) < nextAttemptTime (state cb)"
    using Cons.prems(2) a by simp
  from Cons.IH[OF Cons.prems(1) this] show ?case
    using a ex by (simp add: add.assoc)
qed

lemma executeAll_append:
  "executeAll cb (xs @ ys) w =
     (case executeAll cb xs w of
        (rs, cb', w') \<Rightarrow> (case executeAll cb' ys w' of (rs', cb'', w'') \<Rightarrow> (rs @ rs', cb'', w'')))"
  by (induction xs arbitrary: cb w) (auto split: prod.splits)

lemma executeAll_take_closed:
  assumes "executeAll cb ops w = (rs, cb', w')" and "\<forall>r\<in>set rs. isl r"
    and "\<not> isOpen (state cb)" and "failureCount (state cb) = 0"
    and "length ops = failureThreshold cb" and "k < failureThreshold cb"
  shows "\<not> isOpen (state (fst (snd (executeAll cb (take k ops) w))))"
proof -
  obtain rsa cba wa where run: "executeAll cb (take k ops) w = (rsa, cba, wa)"
    by (cases "executeAll cb (take k ops) w")
  obtain rsb cbb wb where "executeAll cba (drop k ops) wa = (rsb, cbb, wb)"
    by (cases "executeAll cba (drop k ops) wa")
  then have "executeAll cb ops w = (rsa @ rsb, cbb, wb)"
    using run executeAll_append[of cb "take k ops" "drop k ops" w] by simp
  then have "rs = rsa @ rsb" using assms(1) by simp
  then have fl: "\<forall>r\<in>set rsa. isl r" using assms(2) by simp
  have bound: "failureCount (state cb) + length (take k ops) \<le> failureThreshold cb"
    using assms(4,5,6) by simp
  from executeAll_failures[OF run fl assms(3) bound]
  have "isOpen (state cba) \<longleftrightarrow> take k ops \<noteq> [] \<and> failureCount (state cb) + length (take k ops) = failureThreshold cb"
    by simp
  then show ?thesis using run assms(4,5,6) by simp
qed

text \<open>
  Claim C10. When \<^verbatim>\<open>execute\<close> rejects a call because the breaker is open and the next attempt
  is not yet due, it returns the breaker unchanged (\<open>isOpen\<close>, \<open>failureCount\<close>,
  \<open>lastFailureTime\<close> and \<open>nextAttemptTime\<close> included) and leaves the world as it was.
\<close>

theorem fast_fail_leaves_state:
  assumes "isOpen (state cb)" and "clock w < nextAttemptTime (state cb)"
  shows "execute cb operation w = (Inl (ErrorObj ''Circuit breaker is OPEN''), cb, w)"
  using assms by (rule execute_fast_fail)

theorem fast_fail_leaves_state_witness:
  "execute openBreaker succeedsIn10 (world0\<lparr>clock := 200\<rparr> :: unit world)
     = (Inl (ErrorObj ''Circuit breaker is OPEN''), openBreaker, world0\<lparr>clock := 200\<rparr>)"
  using fast_fail_leaves_state[of openBreaker "world0\<lparr>clock := 200\<rparr> :: unit world" succeedsIn10]
  by (simp add: openBreaker_def world0_def)


text \<open>
  Claim C2. Take a breaker that is closed with failure count zero (a new one, or any breaker
  after a successful call) and has a threshold of at least one. After exactly
  \<open>failureThreshold\<close> consecutive calls that all failed it is open, and it was closed after
  every shorter run of them; the next attempt is due \<open>halfOpenRetryDelayMs\<close> after the last
  failure. Every later call that arrives before that time is rejected with the breaker's
  error, and its operation, whatever it is, is not invoked: breaker and world stay as they
  are, apart from the clock moving on between the calls. Once a call that arrives at or after
  that time succeeds, the breaker is closed with failure count zero.
\<close>

theorem breaker_opens_blocks_recloses:
  fixes cb :: CircuitBreaker and failing blocked :: "(nat \<times> ('c, 'a) operation) list"
  assumes "0 < failureThreshold cb"
    and "\<not> isOpen (state cb)" and "failureCount (state cb) = 0"
    and "length failing = failureThreshold cb"
    and "executeAll cb failing w = (rs, cb1, w1)"
    and "\<forall>r\<in>set rs. isl r"
    and "int (sum_list (map fst blocked)) < halfOpenRetryDelayMs cb"
    and "halfOpenRetryDelayMs cb \<le> int (sum_list (map fst blocked)) + int wait"
    and "trial (w1\<lparr>clock := clock w1 + int (sum_list (map fst blocked)) + int wait\<rparr>) = (Inr v, w3)"
  shows "(\<forall>k<failureThreshold cb. \<not> isOpen (state (fst (snd (executeAll cb (take k failing) w)))))
       \<and> isOpen (state cb1)
       \<and> nextAttemptTime (state cb1) = clock w1 + halfOpenRetryDelayMs cb
       \<and> executeAll cb1 blocked w1 =
           (replicate (length blocked) (Inl (ErrorObj ''Circuit breaker is OPEN'')), cb1,
            w1\<lparr>clock := clock w1 + int (sum_list (map fst blocked))\<rparr>)
       \<and> (\<exists>cb3. executeAll cb1 (blocked @ [(wait, trial)]) w1 =
                   (replicate (length blocked) (Inl (ErrorObj ''Circuit breaker is OPEN'')) @ [Inr v],
                    cb3, w3)
                \<and> \<not> isOpen (state cb3) \<and> failureCount (state cb3) = 0)"
proof -
  have ne: "failing \<noteq> []" using assms(1,4) by auto
  have bound: "failureCount (state cb) + length failing \<le> failureThreshold cb"
    using assms(3,4) by simp
  from executeAll_failures[OF assms(5) assms(6) assms(2) bound]
  have delay: "halfOpenRetryDelayMs cb1 = halfOpenRetryDelayMs cb"
    and opn: "isOpen (state cb1)"
    and nxt: "nextAttemptTime (state cb1) = clock w1 + halfOpenRetryDelayMs cb"
    using ne assms(3,4) by simp_all
  have early: "clock w1 + int (sum_list (map fst blocked)) < nextAttemptTime (state cb1)"
    using nxt assms(7) by simp
  let ?w2 = "w1\<lparr>clock := clock w1 + int (sum_list (map fst blocked))\<rparr>"
  let ?w2' = "w1\<lparr>clock := clock w1 + int (sum_list (map fst blocked)) + int wait\<rparr>"
  have blocked: "executeAll cb1 blocked w1 =
      (replicate (length blocked) (Inl (ErrorObj ''Circuit breaker is OPEN'')), cb1, ?w2)"
    by (rule executeAll_blocked[OF opn early])
  have late: "nextAttemptTime (state cb1) \<le> clock ?w2'"
    using nxt assms(8) by simp
  have trial: "execute cb1 trial ?w2' =
      (Inr v, onSuccess (cb1\<lparr>state := (state cb1)\<lparr>isOpen := False\<rparr>\<rparr>), w3)"
    using opn late assms(9) by (rule execute_trial_success[where operation = trial])
  let ?cb3 = "onSuccess (cb1\<lparr>state := (state cb1)\<lparr>isOpen := False\<rparr>\<rparr>)"
  have "executeAll cb1 (blocked @ [(wait, trial)]) w1 =
      (replicate (length blocked) (Inl (ErrorObj ''Circuit breaker is OPEN'')) @ [Inr v], ?cb3, w3)"
    using blocked trial by (simp add: executeAll_append)
  moreover have "\<not> isOpen (state ?cb3)" "failureCount (state ?cb3) = 0"
    by (simp_all add: onSuccess_def)
  moreover have "\<forall>k<failureThreshold cb. \<not> isOpen (state (fst (snd (executeAll cb (take k failing) w))))"
    using executeAll_take_closed[OF assms(5) assms(6) assms(2) assms(3) assms(4)] by blast
  ultimately show ?thesis using opn nxt blocked by blast
qed

theorem breaker_opens_blocks_recloses_witness:
  "\<exists>rs cb1 w1 cb3.
     executeAll (newCircuitBreaker 3 2000 5000)
       [(0, failsIn10), (100, failsIn10), (100, failsIn10)] (world0 :: unit world) = (rs, cb1, w1)
   \<and> isOpen (state cb1) \<and> nextAttemptTime (state cb1) = 5230
   \<and> executeAll cb1 [(1000, succeedsIn10), (3999, succeedsIn10)] w1
        = ([Inl (ErrorObj ''Circuit breaker is OPEN''), Inl (ErrorObj ''Circuit breaker is OPEN'')],
           cb1, w1\<lparr>clock := 5229\<rparr>)
   \<and> executeAll cb1 [(1000, succeedsIn10), (3999, succeedsIn10), (1, succeedsIn10)] w1
        = ([Inl (ErrorObj ''Circuit breaker is OPEN''), Inl (ErrorObj ''Circuit breaker is OPEN''),
            Inr quoteA], cb3, w1\<lparr>clock := 5240\<rparr>)
   \<and> \<not> isOpen (state cb3) \<and> failureCount (state cb3) = 0"
proof -
  let ?cb = "newCircuitBreaker 3 2000 5000"
  let ?failing = "[(0, failsIn10), (100, failsIn10), (100, failsIn10)] :: (nat \<times> (unit, QuoteResponse) operation) list"
  let ?blocked = "[(1000, succeedsIn10), (3999, succeedsIn10)] :: (nat \<times> (unit, QuoteResponse) operation) list"
  obtain rs cb1 w1 where run: "executeAll ?cb ?failing (world0 :: unit world) = (rs, cb1, w1)"
    by (cases "executeAll ?cb ?failing (world0 :: unit world)")
  have clk: "clock w1 = 230" and h6: "\<forall>r\<in>set rs. isl r"
    using run by (auto simp: execute_def tryOperation_def failsIn10_def world0_def newCircuitBreaker_def
        onFailure_def Let_def split: prod.splits)
  have h1: "0 < failureThreshold ?cb" by (simp add: newCircuitBreaker_def)
  have h2: "\<not> isOpen (state ?cb)" by (simp add: newCircuitBreaker_def)
  have h3: "failureCount (state ?cb) = 0" by (simp add: newCircuitBreaker_def)
  have h4: "length ?failing = failureThreshold ?cb" by (simp add: newCircuitBreaker_def)
  have h7: "int (sum_list (map fst ?blocked)) < halfOpenRetryDelayMs ?cb"
    by (simp add: newCircuitBreaker_def)
  have h8: "halfOpenRetryDelayMs ?cb \<le> int (sum_list (map fst ?blocked)) + int 1"
    by (simp add: newCircuitBreaker_def)
  have h9: "succeedsIn10 (w1\<lparr>clock := clock w1 + int (sum_list (map fst ?blocked)) + int 1\<rparr>)
      = (Inr quoteA, w1\<lparr>clock := 5240\<rparr>)"
    by (simp add: succeedsIn10_def clk)
  from breaker_opens_blocks_recloses[where trial = succeedsIn10, OF h1 h2 h3 h4 run h6 h7 h8 h9]
  show ?thesis using run clk by (simp add: newCircuitBreaker_def)
qed

section \<open>Properties of the retry manager\<close>

lemma retry_error_object:
  assumes "operation w = (Inl (ErrorObj m), w1)" and "0 < maxRetries"
  shows "executeWithRetry operation maxRetries baseDelayMs maxDelayMs w
           = (Inl (ErrorObj ''error.includes is not a function''), w1)"
  using assms by (simp add: executeWithRetry_def isNonRetryableError_def)

lemma retry_non_retryable:
  assumes "operation w = (Inl e, w1)" and "isNonRetryableError e = Inr True" and "0 \<le> maxRetries"
  shows "executeWithRetry operation maxRetries baseDelayMs maxDelayMs w = (Inl e, w1)"
  using assms by (simp add: executeWithRetry_def)

lemma calls_sleep [simp]: "calls (sleep d w) = calls w"
  by (simp add: sleep_def)

lemma calls_mathRandom [simp]: "calls (snd (mathRandom w)) = calls w"
  by (simp add: mathRandom_def)

lemma retryLoop_scripted_success:
  assumes "\<forall>i<k. \<exists>s d. script (length (calls w) + i) = (Inl (StringVal s), d)
                       \<and> isNonRetryableError (StringVal s) = Inr False"
    and "script (length (calls w) + k) = (Inr v, d')"
    and "int attempt + int k \<le> maxRetries"
  shows "\<exists>w'. retryLoop (scripted script) maxRetries baseDelayMs maxDelayMs attempt lastError w
                 = (Inr v, w')
              \<and> length (calls w') = length (calls w) + k + 1
              \<and> length (timers w') = length (timers w) + k"
  using assms
proof (induction k arbitrary: attempt lastError w)
  case 0
  then show ?case by (simp add: scripted_def)
next
  case (Suc k)
  from Suc.prems(1) obtain s d where s: "script (length (calls w)) = (Inl (StringVal s), d)"
    and cls: "isNonRetryableError (StringVal s) = Inr False"
    by force
  let ?w1 = "w\<lparr>clock := clock w + int d, calls := calls w @ [()]\<rparr>"
  have op: "scripted script w = (Inl (StringVal s), ?w1)" using s by (simp add: scripted_def)
  obtain r w2 where rnd: "mathRandom ?w1 = (r, w2)" by (cases "mathRandom ?w1")
  let ?w3 = "sleep (min (baseDelayMs * 2 ^ attempt + r * 100) maxDelayMs) w2"
  have c3: "calls ?w3 = calls w @ [()]" using rnd calls_mathRandom[of ?w1] by simp
  have t3: "length (timers ?w3) = length (timers w) + 1"
    using rnd by (auto simp: sleep_def mathRandom_def)
  have p1: "\<forall>i<k. \<exists>s d. script (length (calls ?w3) + i) = (Inl (StringVal s), d)
                       \<and> isNonRetryableError (StringVal s) = Inr False"
    using Suc.prems(1) c3 by (metis Suc_less_eq add_Suc_shift length_append_singleton)
  have p2: "script (length (calls ?w3) + k) = (Inr v, d')" using Suc.prems(2) c3 by simp
  have p3: "int (attempt + 1) + int k \<le> maxRetries" using Suc.prems(3) by simp
  from Suc.IH[OF p1 p2 p3, of "StringVal s"] obtain w' where
    rec: "retryLoop (scripted script) maxRetries baseDelayMs maxDelayMs (attempt + 1) (StringVal s) ?w3 = (Inr v, w')"
    and l: "length (calls w') = length (calls ?w3) + k + 1"
    and t: "length (timers w') = length (timers ?w3) + k" by blast
  have "retryLoop (scripted script) maxRetries baseDelayMs maxDelayMs attempt lastError w = (Inr v, w')"
    using op cls rnd rec Suc.prems(3) by (subst retryLoop.simps) simp
  then show ?case using l t c3 t3 by auto
qed

lemma executeWithRetry_scripted_success:
  assumes "\<forall>i<k. \<exists>s d. script (length (calls w) + i) = (Inl (StringVal s), d)
                       \<and> isNonRetryableError (StringVal s) = Inr False"
    and "script (length (calls w) + k) = (Inr v, d')"
    and "int k \<le> maxRetries"
  shows "\<exists>w'. executeWithRetry (scripted script) maxRetries baseDelayMs maxDelayMs w = (Inr v, w')
              \<and> length (calls w') = length (calls w) + k + 1
              \<and> length (timers w') = length (timers w) + k"
  unfolding executeWithRetry_def
  using retryLoop_scripted_success[OF assms(1,2), of 0 maxRetries] assms(3) by simp

text \<open>
  Claim C3 fails on the code. An operation that rejects once with an \<^verbatim>\<open>Error\<close> object and
  would then succeed is invoked once: \<^verbatim>\<open>isNonRetryableError\<close> throws on the object, and the
  wrapper rejects with that \<^verbatim>\<open>TypeError\<close> instead of returning the success. The same happens
  when the message of the object names a non-retryable kind: the failure itself is not what
  propagates.
\<close>

theorem retry_never_retries_error_objects:
  "executeWithRetry (scripted failsOnceThenSucceeds) 2 50 200 world0
     = (Inl (ErrorObj ''error.includes is not a function''), world0\<lparr>clock := 20, calls := [()]\<rparr>)
   \<and> executeWithRetry (scripted unauthorizedThenSucceeds) 2 50 200 world0
     = (Inl (ErrorObj ''error.includes is not a function''), world0\<lparr>clock := 20, calls := [()]\<rparr>)"
  by (simp add: executeWithRetry_def scripted_def failsOnceThenSucceeds_def
      unauthorizedThenSucceeds_def isNonRetryableError_def world0_def)

lemma retry_scripted_strings:
  "\<exists>w'. executeWithRetry (scripted timeoutsThenSucceeds) 2 50 200 world0 = (Inr quoteA, w')
      \<and> length (calls w') = 3 \<and> timers w' = [100, 150]"
  by (simp add: executeWithRetry_def scripted_def timeoutsThenSucceeds_def
      isNonRetryableError_def world0_def mathRandom_def sleep_def)

section \<open>Properties of the primary source\<close>








section \<open>Properties of the orchestrator\<close>

lemma produced_simps [simp]:
  "produced [] = []"
  "produced (c # cs) = (case outcome c of Inl error \<Rightarrow> [] | Inr quote \<Rightarrow> [quote]) @ produced cs"
  "produced (xs @ ys) = produced xs @ produced ys"
  by (simp_all add: produced_def)

lemma calls_after_mathRandom: "mathRandom w = (r, w2) \<Longrightarrow> calls w2 = calls w"
  by (auto simp: mathRandom_def)

lemma getQuote_calls:
  "getQuote services i request t w = (r, w1) \<Longrightarrow>
     calls w1 = calls w @ [\<lparr>callee = i, budget = t, outcome = r\<rparr>]"
  by (auto simp: getQuote_def split: prod.splits)

lemma retryLoop_getQuote_calls:
  "retryLoop (getQuote services i request t) maxRetries b d attempt le w = (r, w') \<Longrightarrow>
   \<exists>cs. calls w' = calls w @ cs \<and> (\<forall>c\<in>set cs. callee c = i)
      \<and> produced cs = (case r of Inr q \<Rightarrow> [q] | Inl e \<Rightarrow> [])"
proof (induction "getQuote services i request t" maxRetries b d attempt le w arbitrary: r w'
    rule: retryLoop.induct)
  case (1 maxRetries baseDelayMs maxDelayMs attempt lastError w)
  show ?case
  proof (cases "int attempt \<le> maxRetries")
    case False
    then have "r = Inl lastError" "w' = w" using "1.prems" by (simp_all add: retryLoop.simps)
    then show ?thesis by simp
  next
    case le: True
    obtain r1 w1 where op: "getQuote services i request t w = (r1, w1)"
      by (cases "getQuote services i request t w")
    have c1: "calls w1 = calls w @ [\<lparr>callee = i, budget = t, outcome = r1\<rparr>]"
      using op by (rule getQuote_calls)
    show ?thesis
    proof (cases r1)
      case (Inr q)
      then have "r = Inr q" "w' = w1" using "1.prems" le op by (simp_all add: retryLoop.simps)
      then show ?thesis using c1 Inr by simp
    next
      case (Inl e)
      show ?thesis
      proof (cases "int attempt = maxRetries \<or> isNonRetryableError e \<noteq> Inr False")
        case True
        then have "w' = w1" "isl r" using "1.prems" le op Inl
          by (auto simp: retryLoop.simps split: sum.splits bool.splits if_splits)
        then show ?thesis using c1 Inl by (auto simp: isl_def)
      next
        case False
        then have ne: "int attempt \<noteq> maxRetries" and cls: "isNonRetryableError e = Inr False" by auto
        obtain rn w2 where rnd: "mathRandom w1 = (rn, w2)" by (cases "mathRandom w1")
        let ?w3 = "sleep (min (baseDelayMs * 2 ^ attempt + rn * 100) maxDelayMs) w2"
        have rec: "retryLoop (getQuote services i request t) maxRetries baseDelayMs maxDelayMs
                     (attempt + 1) e ?w3 = (r, w')"
          using "1.prems" le op Inl ne cls rnd by (simp add: retryLoop.simps[of _ _ _ _ attempt])
        have c3: "calls ?w3 = calls w1" using calls_after_mathRandom[OF rnd] by simp
        from "1.hyps"[OF le op[symmetric] Inl ne cls _ rnd[symmetric] refl rec]
        obtain cs where "calls w' = calls ?w3 @ cs" "\<forall>c\<in>set cs. callee c = i"
          "produced cs = (case r of Inr q \<Rightarrow> [q] | Inl e \<Rightarrow> [])" by auto
        then show ?thesis using c3 c1 Inl
          by (intro exI[of _ "\<lparr>callee = i, budget = t, outcome = r1\<rparr> # cs"]) simp
      qed
    qed
  qed
qed

lemma primaryAttempt_calls:
  assumes "primaryAttempt services request startTime w = (results1, errors1, w1)"
  shows "\<exists>cs. calls w1 = calls w @ cs \<and> (\<forall>c\<in>set cs. callee c = 0) \<and> results1 = produced cs"
proof (cases "QUOTE_TIMEOUT_MS - (clock w - startTime) > 200")
  case False
  then have "results1 = []" "w1 = w" using assms by (simp_all add: primaryAttempt_def Let_def)
  then show ?thesis by simp
next
  case True
  let ?t = "min (real_of_int (QUOTE_TIMEOUT_MS - (clock w - startTime)) - 100) 1000"
  obtain r w' where run: "executeWithRetry (getQuote services 0 request ?t) 2 50 200 w = (r, w')"
    by (cases "executeWithRetry (getQuote services 0 request ?t) 2 50 200 w")
  then obtain cs where cs: "calls w' = calls w @ cs" "\<forall>c\<in>set cs. callee c = 0"
    "produced cs = (case r of Inr q \<Rightarrow> [q] | Inl e \<Rightarrow> [])"
    unfolding executeWithRetry_def using retryLoop_getQuote_calls by blast
  have "w1 = w'" "results1 = (case r of Inr q \<Rightarrow> [q] | Inl e \<Rightarrow> [])"
    using assms True run by (auto simp: primaryAttempt_def Let_def split: sum.splits)
  then show ?thesis using cs by auto
qed

lemma backupAttempts_calls:
  assumes "backupAttempts services request startTime results errors w = (results2, errors2, w2)"
  shows "\<exists>cs. calls w2 = calls w @ cs \<and> (\<forall>c\<in>set cs. callee c = 1 \<or> callee c = 2)
           \<and> results2 = results @ produced cs
           \<and> set errors2 = set errors \<union> {e. \<exists>c\<in>set cs. outcome c = Inl e}"
proof (cases "QUOTE_TIMEOUT_MS - (clock w - startTime) > 300")
  case False
  then have "results2 = results" "errors2 = errors" "w2 = w"
    using assms by (simp_all add: backupAttempts_def Let_def)
  then show ?thesis by simp
next
  case True
  let ?t = "min (real_of_int (QUOTE_TIMEOUT_MS - (clock w - startTime)) / 2) 800"
  obtain r1 l1 where s1: "services 1 request ?t w = (r1, l1)" by (cases "services 1 request ?t w")
  obtain r2 l2 where s2: "services 2 request ?t w = (r2, l2)" by (cases "services 2 request ?t w")
  let ?cs = "[\<lparr>callee = 1, budget = ?t, outcome = r1\<rparr>, \<lparr>callee = 2, budget = ?t, outcome = r2\<rparr>]"
  have "calls w2 = calls w @ ?cs"
    using assms True s1 s2 by (auto simp: backupAttempts_def Let_def)
  moreover have "results2 = results @ produced ?cs"
    using assms True s1 s2 by (auto simp: backupAttempts_def Let_def split: sum.splits)
  moreover have "set errors2 = set errors \<union> {e. \<exists>c\<in>set ?cs. outcome c = Inl e}"
    using assms True s1 s2 by (auto simp: backupAttempts_def Let_def split: sum.splits if_splits)
  ultimately show ?thesis by (intro exI[of _ ?cs]) simp
qed

lemma oracleAttempt_calls:
  assumes "oracleAttempt services request startTime results errors w = (results3, errors3, w3)"
  shows "\<exists>cs. calls w3 = calls w @ cs \<and> (\<forall>c\<in>set cs. callee c = 3)
           \<and> (cs \<noteq> [] \<longleftrightarrow> (results = [] \<or> (\<forall>q\<in>set results. confidence q = low))
                              \<and> QUOTE_TIMEOUT_MS - (clock w - startTime) > 200)
           \<and> length cs \<le> 1
           \<and> results3 = results @ produced cs
           \<and> set errors3 = set errors \<union> {e. \<exists>c\<in>set cs. outcome c = Inl e}"
proof (cases "(results = [] \<or> (\<forall>q\<in>set results. confidence q = low))
              \<and> QUOTE_TIMEOUT_MS - (clock w - startTime) > 200")
  case False
  then have "results3 = results" "errors3 = errors" "w3 = w"
    using assms by (auto simp: oracleAttempt_def Let_def list_all_iff split: if_splits)
  then show ?thesis using False by (intro exI[of _ "[]"]) simp
next
  case True
  let ?t = "real_of_int (QUOTE_TIMEOUT_MS - (clock w - startTime)) - 50"
  obtain r w' where g: "getQuote services 3 request ?t w = (r, w')"
    by (cases "getQuote services 3 request ?t w")
  let ?cs = "[\<lparr>callee = 3, budget = ?t, outcome = r\<rparr>]"
  have c: "calls w' = calls w @ ?cs" using g by (rule getQuote_calls)
  have "w3 = w'" "results3 = results @ produced ?cs"
    "set errors3 = set errors \<union> {e. \<exists>c\<in>set ?cs. outcome c = Inl e}"
    using assms True g by (auto simp: oracleAttempt_def Let_def list_all_iff split: sum.splits)
  then show ?thesis using c True by (intro exI[of _ ?cs]) simp
qed




lemma selectBestQuote_single: "selectBestQuote pf [quote] = Inr quote"
  by (simp add: selectBestQuote_def)


text \<open>
  Claim C5. When the primary stage returns a quote of confidence high, the orchestrator
  returns that quote alone, in the world the primary stage left: every call logged during the
  run is a call of service 0, so no backup source and no oracle is invoked; the selection
  among that one quote is the quote, and it is what \<^verbatim>\<open>getOptimalQuote\<close> returns.
\<close>

theorem primary_high_confidence_returns_early:
  assumes "primaryAttempt services request startTime w = ([quote], errors1, w1)"
    and "confidence quote = high"
  shows "executeParallelWithFallback services request startTime w = (Inr [quote], w1)
       \<and> (\<exists>cs. calls w1 = calls w @ cs \<and> (\<forall>c\<in>set cs. callee c = 0))
       \<and> selectBestQuote pf [quote] = Inr quote
       \<and> (startTime = clock w \<longrightarrow> getOptimalQuote pf services request w = (Inr quote, w1))"
proof -
  have run: "executeParallelWithFallback services request startTime w = (Inr [quote], w1)"
    using assms by (simp add: executeParallelWithFallback_def)
  moreover have "\<exists>cs. calls w1 = calls w @ cs \<and> (\<forall>c\<in>set cs. callee c = 0)"
    using primaryAttempt_calls[OF assms(1)] by blast
  moreover have "startTime = clock w \<longrightarrow> getOptimalQuote pf services request w = (Inr quote, w1)"
    using run by (auto simp: getOptimalQuote_def selectBestQuote_single)
  ultimately show ?thesis by (simp add: selectBestQuote_single)
qed

lemma primaryAttempt_high:
  "primaryAttempt servicesPrimaryHigh request0 0 world0
     = ([quoteHigh], [], world0\<lparr>clock := 120,
          calls := [\<lparr>callee = 0, budget = 1000, outcome = Inr quoteHigh\<rparr>]\<rparr>)"
  by (simp add: primaryAttempt_def QUOTE_TIMEOUT_MS_def world0_def executeWithRetry_def
      getQuote_def servicesPrimaryHigh_def)

theorem primary_high_confidence_returns_early_witness:
  "getOptimalQuote parseDecimal servicesPrimaryHigh request0 world0
     = (Inr quoteHigh, world0\<lparr>clock := 120,
          calls := [\<lparr>callee = 0, budget = 1000, outcome = Inr quoteHigh\<rparr>]\<rparr>)"
proof -
  have h: "confidence quoteHigh = high" by (simp add: quoteHigh_def)
  have c: "(0::int) = clock (world0 :: call world)" by (simp add: world0_def)
  show ?thesis
    using primary_high_confidence_returns_early[OF primaryAttempt_high h, of parseDecimal] c
    by simp
qed

text \<open>
  Claim C6. In a run of the orchestrator the oracle (service 3) is called if and only if the
  run did not return early and, after the backup stage, no result has been collected or every
  collected result has confidence low, and more than 200 ms of the budget remain.
\<close>

theorem oracle_only_as_last_resort:
  assumes "executeParallelWithFallback services request startTime w = (r, w3)"
    and "primaryAttempt services request startTime w = (results1, errors1, w1)"
    and "backupAttempts services request startTime results1 errors1 w1 = (results2, errors2, w2)"
  shows "(\<exists>c\<in>set (drop (length (calls w)) (calls w3)). callee c = 3)
         \<longleftrightarrow> \<not> (length results1 > 0 \<and> confidence (results1 ! 0) = high)
             \<and> (results2 = [] \<or> (\<forall>q\<in>set results2. confidence q = low))
             \<and> QUOTE_TIMEOUT_MS - (clock w2 - startTime) > 200"
proof -
  obtain cs0 where cs0: "calls w1 = calls w @ cs0" "\<forall>c\<in>set cs0. callee c = 0"
    using primaryAttempt_calls[OF assms(2)] by blast
  show ?thesis
  proof (cases "length results1 > 0 \<and> confidence (results1 ! 0) = high")
    case True
    then have "w3 = w1" using assms(1,2) by (simp add: executeParallelWithFallback_def)
    then show ?thesis using cs0 True by auto
  next
    case False
    obtain results3 errors3 w3' where
      o: "oracleAttempt services request startTime results2 errors2 w2 = (results3, errors3, w3')"
      by (cases "oracleAttempt services request startTime results2 errors2 w2")
    have "snd (executeParallelWithFallback services request startTime w) = w3'"
      unfolding executeParallelWithFallback_def assms(2) prod.case if_not_P[OF False] assms(3) o
      by simp
    then have w3: "w3 = w3'" using assms(1) by simp
    obtain cs12 where cs12: "calls w2 = calls w1 @ cs12" "\<forall>c\<in>set cs12. callee c = 1 \<or> callee c = 2"
      using backupAttempts_calls[OF assms(3)] by blast
    obtain cs3 where cs3: "calls w3' = calls w2 @ cs3" "\<forall>c\<in>set cs3. callee c = 3"
      "cs3 \<noteq> [] \<longleftrightarrow> (results2 = [] \<or> (\<forall>q\<in>set results2. confidence q = low))
                      \<and> QUOTE_TIMEOUT_MS - (clock w2 - startTime) > 200"
      using oracleAttempt_calls[OF o] by blast
    have "drop (length (calls w)) (calls w3) = cs0 @ cs12 @ cs3"
      using w3 cs0(1) cs12(1) cs3(1) by simp
    moreover have "(\<exists>c\<in>set (cs0 @ cs12 @ cs3). callee c = 3) \<longleftrightarrow> cs3 \<noteq> []"
    proof
      assume "\<exists>c\<in>set (cs0 @ cs12 @ cs3). callee c = 3"
      then obtain c where "c \<in> set cs0 \<union> set cs12 \<union> set cs3" "callee c = 3" by auto
      then have "c \<in> set cs3" using cs0(2) cs12(2) by force
      then show "cs3 \<noteq> []" by auto
    next
      assume "cs3 \<noteq> []"
      then obtain c where "c \<in> set cs3" by (cases cs3) auto
      then show "\<exists>c\<in>set (cs0 @ cs12 @ cs3). callee c = 3" using cs3(2) by auto
    qed
    ultimately show ?thesis using cs3(3) False by simp
  qed
qed

lemma primaryAttempt_allDown:
  "primaryAttempt servicesAllDown request0 0 world0
     = ([], [ErrorObj ''error.includes is not a function''],
        world0\<lparr>clock := 30,
          calls := [\<lparr>callee = 0, budget = 1000,
                     outcome = Inl (ErrorObj ''Jupiter API error: 503 Service Unavailable'')\<rparr>]\<rparr>)"
  by (simp add: primaryAttempt_def QUOTE_TIMEOUT_MS_def world0_def executeWithRetry_def
      getQuote_def servicesAllDown_def isNonRetryableError_def)

lemma backupAttempts_allDown:
  "backupAttempts servicesAllDown request0 0 [] [ErrorObj ''error.includes is not a function'']
     (world0\<lparr>clock := 30,
          calls := [\<lparr>callee = 0, budget = 1000,
                     outcome = Inl (ErrorObj ''Jupiter API error: 503 Service Unavailable'')\<rparr>]\<rparr>)
   = ([], [ErrorObj ''error.includes is not a function'', ErrorObj ''Hashflow unreachable'',
           ErrorObj ''DFlow unreachable''],
      world0\<lparr>clock := 110,
          calls := [\<lparr>callee = 0, budget = 1000,
                     outcome = Inl (ErrorObj ''Jupiter API error: 503 Service Unavailable'')\<rparr>,
                   \<lparr>callee = 1, budget = 800, outcome = Inl (ErrorObj ''DFlow unreachable'')\<rparr>,
                   \<lparr>callee = 2, budget = 800, outcome = Inl (ErrorObj ''Hashflow unreachable'')\<rparr>]\<rparr>)"
  by (simp add: backupAttempts_def QUOTE_TIMEOUT_MS_def world0_def servicesAllDown_def Let_def)

theorem oracle_only_as_last_resort_witness:
  "\<exists>c\<in>set (drop (length (calls (world0 :: call world)))
       (calls (snd (executeParallelWithFallback servicesAllDown request0 0 world0)))). callee c = 3"
proof -
  obtain r w3 where run: "executeParallelWithFallback servicesAllDown request0 0 world0 = (r, w3)"
    by (cases "executeParallelWithFallback servicesAllDown request0 0 (world0 :: call world)")
  show ?thesis
    using oracle_only_as_last_resort[OF run primaryAttempt_allDown backupAttempts_allDown] run
    by (simp add: QUOTE_TIMEOUT_MS_def world0_def)
qed





end
